theory Spec2Isabelle
  imports Main "HOL-Library.While_Combinator"
begin

section \<open>Python strings\<close>

text \<open>
  A Python \<^verbatim>\<open>str\<close> is a sequence of Unicode code points, and \<^verbatim>\<open>len\<close>, \<^verbatim>\<open>split\<close> and
  \<^verbatim>\<open>splitlines\<close> work on code points. A text is therefore a list of code points
  (natural numbers); \<open>str\<close> turns a literal of ASCII characters into such a list.
\<close>

type_synonym py_str = "nat list"

definition str :: "string \<Rightarrow> py_str" where
  "str s = map of_char s"

text \<open>
  The code points that \<^verbatim>\<open>str.split()\<close> treats as whitespace (CPython's
  \<^verbatim>\<open>_PyUnicode_IsWhitespace\<close>) and those at which \<^verbatim>\<open>str.splitlines()\<close> breaks a line
  (CPython's \<^verbatim>\<open>_PyUnicode_IsLinebreak\<close>).
\<close>

definition isspace :: "nat \<Rightarrow> bool" where
  "isspace c \<longleftrightarrow>
     (0x09 \<le> c \<and> c \<le> 0x0D) \<or> (0x1C \<le> c \<and> c \<le> 0x1F) \<or> c = 0x20 \<or> c = 0x85 \<or>
     c = 0xA0 \<or> c = 0x1680 \<or> (0x2000 \<le> c \<and> c \<le> 0x200A) \<or> c = 0x2028 \<or>
     c = 0x2029 \<or> c = 0x202F \<or> c = 0x205F \<or> c = 0x3000"

definition islinebreak :: "nat \<Rightarrow> bool" where
  "islinebreak c \<longleftrightarrow>
     (0x0A \<le> c \<and> c \<le> 0x0D) \<or> (0x1C \<le> c \<and> c \<le> 0x1E) \<or> c = 0x85 \<or>
     c = 0x2028 \<or> c = 0x2029"

text \<open>
  \<^verbatim>\<open>s.split()\<close>: skip whitespace, take the run of non-whitespace code points as a word,
  go on behind it. No word is empty and an all-whitespace string has no word.
\<close>

function split :: "py_str \<Rightarrow> py_str list" where
  "split s =
     (case dropWhile isspace s of
        [] \<Rightarrow> []
      | c # cs \<Rightarrow>
          takeWhile (\<lambda>x. \<not> isspace x) (c # cs) #
          split (dropWhile (\<lambda>x. \<not> isspace x) cs))"
  by pat_completeness auto
termination
proof (relation "measure length", goal_cases)
  case 1
  show ?case by simp
next
  case (2 s c cs)
  have "length (dropWhile (\<lambda>x. \<not> isspace x) cs) \<le> length cs"
    by (rule length_dropWhile_le)
  moreover have "length (c # cs) \<le> length s"
    using length_dropWhile_le [of isspace s] 2 by simp
  ultimately show ?case by simp
qed

declare split.simps [simp del]

text \<open>
  \<^verbatim>\<open>s.splitlines()\<close>: a line runs up to the next line break, which is dropped; a carriage
  return directly followed by a line feed is one break. The empty string has no line, and
  a break at the very end opens no further line.
\<close>

function splitlines :: "py_str \<Rightarrow> py_str list" where
  "splitlines s =
     (if s = [] then []
      else
        (case dropWhile (\<lambda>x. \<not> islinebreak x) s of
           [] \<Rightarrow> [s]
         | c # cs \<Rightarrow>
             takeWhile (\<lambda>x. \<not> islinebreak x) s #
             splitlines (case cs of
                           d # ds \<Rightarrow> if c = 0x0D \<and> d = 0x0A then ds else cs
                         | [] \<Rightarrow> cs)))"
  by pat_completeness auto
termination
proof (relation "measure length", goal_cases)
  case 1
  show ?case by simp
next
  case (2 s c cs)
  have "length (c # cs) \<le> length s"
    using length_dropWhile_le [of "\<lambda>x. \<not> islinebreak x" s] 2 by simp
  then show ?case by (cases cs) auto
qed

declare splitlines.simps [simp del]

text \<open>
  \<^verbatim>\<open>s.split('\n\n')\<close>: cut at every occurrence of two line feeds, found from the left
  and not overlapping. The result always has at least one piece; the empty string gives
  the one empty piece.
\<close>

fun split_nn :: "py_str \<Rightarrow> py_str list" where
  "split_nn [] = [[]]"
| "split_nn [c] = [[c]]"
| "split_nn (c # d # cs) =
     (if c = 0x0A \<and> d = 0x0A then [] # split_nn cs
      else (case split_nn (d # cs) of
              p # ps \<Rightarrow> (c # p) # ps
            | [] \<Rightarrow> [[c]]))"

text \<open>\<^verbatim>\<open>sep.join(xs)\<close>\<close>

fun join :: "py_str \<Rightarrow> py_str list \<Rightarrow> py_str" where
  "join sep [] = []"
| "join sep [x] = x"
| "join sep (x # y # ys) = x @ sep @ join sep (y # ys)"


section \<open>The chunking strategies\<close>

text \<open>
  A chunk is a pair of its text and its size. Each strategy's \<^verbatim>\<open>chunk\<close> method keeps three
  local variables while it walks over the units: the chunks closed so far, the units of
  the chunk being built and their running size.
\<close>

type_synonym chunk = "py_str \<times> int"

record 'u loop_state =
  chunks :: "chunk list"
  current_chunk :: "'u list"
  current_chunk_size :: int

definition init_state :: "'u loop_state" where
  "init_state = \<lparr>chunks = [], current_chunk = [], current_chunk_size = 0\<rparr>"

subsection \<open>Token-based chunking\<close>

text \<open>
  The encoder is an object of the tokenizer library; the chunker only calls its
  \<^verbatim>\<open>encode\<close> and \<^verbatim>\<open>decode\<close> and never looks into a token, so the token type is left open
  (the library's tokens are integers).
\<close>

record 'tok encoding =
  encode :: "py_str \<Rightarrow> 'tok list"
  decode :: "'tok list \<Rightarrow> py_str"

text \<open>The body of the loop over the tokens: close the chunk when the running size has
  reached the chunk size (whether or not the chunk has a token yet), then append.\<close>

definition token_step :: "'tok encoding \<Rightarrow> int \<Rightarrow> 'tok \<Rightarrow> 'tok loop_state \<Rightarrow> 'tok loop_state" where
  "token_step encoder chunk_size token st =
     (let st' =
        (if current_chunk_size st \<ge> chunk_size
         then st\<lparr>chunks := chunks st @
                      [(decode encoder (current_chunk st), int (length (current_chunk st)))],
                 current_chunk := [],
                 current_chunk_size := 0\<rparr>
         else st)
      in st'\<lparr>current_chunk := current_chunk st' @ [token],
             current_chunk_size := current_chunk_size st' + 1\<rparr>)"

text \<open>After the loop: a chunk under construction that has a token is closed too.\<close>

definition token_finish :: "'tok encoding \<Rightarrow> 'tok loop_state \<Rightarrow> chunk list" where
  "token_finish encoder st =
     (if current_chunk st \<noteq> []
      then chunks st @ [(decode encoder (current_chunk st), int (length (current_chunk st)))]
      else chunks st)"

definition TokenBasedChunking_chunk :: "'tok encoding \<Rightarrow> py_str \<Rightarrow> int \<Rightarrow> chunk list" where
  "TokenBasedChunking_chunk encoder text chunk_size =
     token_finish encoder (fold (token_step encoder chunk_size) (encode encoder text) init_state)"

subsection \<open>Line-based and paragraph-based chunking\<close>

text \<open>
  The two methods have the same loop, over the lines joined by a space in one and over the
  paragraphs joined by two line feeds in the other; the joiner is the first argument here.
  A unit's size is its number of whitespace-separated words. The chunk under construction
  is closed before a unit that would take it over the chunk size, unless it is empty.
\<close>

definition unit_step :: "py_str \<Rightarrow> int \<Rightarrow> py_str \<Rightarrow> py_str loop_state \<Rightarrow> py_str loop_state" where
  "unit_step joiner chunk_size unit st =
     (let unit_size = int (length (split unit));
          st' =
            (if current_chunk_size st + unit_size > chunk_size \<and> current_chunk st \<noteq> []
             then st\<lparr>chunks := chunks st @
                          [(join joiner (current_chunk st), current_chunk_size st)],
                     current_chunk := [],
                     current_chunk_size := 0\<rparr>
             else st)
      in st'\<lparr>current_chunk := current_chunk st' @ [unit],
             current_chunk_size := current_chunk_size st' + unit_size\<rparr>)"

definition unit_finish :: "py_str \<Rightarrow> py_str loop_state \<Rightarrow> chunk list" where
  "unit_finish joiner st =
     (if current_chunk st \<noteq> []
      then chunks st @ [(join joiner (current_chunk st), current_chunk_size st)]
      else chunks st)"

definition LineBasedChunking_chunk :: "py_str \<Rightarrow> int \<Rightarrow> chunk list" where
  "LineBasedChunking_chunk text chunk_size =
     unit_finish [0x20] (fold (unit_step [0x20] chunk_size) (splitlines text) init_state)"

definition ParagraphBasedChunking_chunk :: "py_str \<Rightarrow> int \<Rightarrow> chunk list" where
  "ParagraphBasedChunking_chunk text chunk_size =
     unit_finish [0x0A, 0x0A]
       (fold (unit_step [0x0A, 0x0A] chunk_size) (split_nn text) init_state)"

subsection \<open>The methods as the interpreter runs them\<close>

text \<open>
  The annotations \<^verbatim>\<open>text: str\<close> and \<^verbatim>\<open>chunk_size: int\<close> are not checked: a caller can pass
  any object, and the interpreter raises when an operation meets an object it has no such
  operation for. Here the two arguments are objects of one of three classes (the others
  are left out), and each operation on an argument is written with its check:
  \<^verbatim>\<open>text.splitlines()\<close> and \<^verbatim>\<open>text.split('\n\n')\<close> raise \<^verbatim>\<open>AttributeError\<close> on an object that
  has no such method, and \<^verbatim>\<open>total > chunk_size\<close>, with an integer on the left, raises
  \<^verbatim>\<open>TypeError\<close> unless \<^verbatim>\<open>chunk_size\<close> is an integer too.
\<close>

datatype py_object = PyStr py_str | PyInt int | PyNone

datatype builtin_error = TypeError | AttributeError

definition method_splitlines :: "py_object \<Rightarrow> builtin_error + py_str list" where
  "method_splitlines text =
     (case text of PyStr s \<Rightarrow> Inr (splitlines s) | PyInt _ \<Rightarrow> Inl AttributeError
      | PyNone \<Rightarrow> Inl AttributeError)"

definition method_split_nn :: "py_object \<Rightarrow> builtin_error + py_str list" where
  "method_split_nn text =
     (case text of PyStr s \<Rightarrow> Inr (split_nn s) | PyInt _ \<Rightarrow> Inl AttributeError
      | PyNone \<Rightarrow> Inl AttributeError)"

definition int_gt :: "int \<Rightarrow> py_object \<Rightarrow> builtin_error + bool" where
  "int_gt a b =
     (case b of PyInt n \<Rightarrow> Inr (a > n) | PyStr _ \<Rightarrow> Inl TypeError | PyNone \<Rightarrow> Inl TypeError)"

text \<open>The body of the loop over the lines or paragraphs. The comparison comes first in the
  condition, so it is made, and can raise, in every round.\<close>

definition unit_body ::
    "py_str \<Rightarrow> py_object \<Rightarrow> py_str \<Rightarrow> py_str loop_state \<Rightarrow> builtin_error + py_str loop_state" where
  "unit_body joiner chunk_size unit st =
     (let unit_size = int (length (split unit))
      in case int_gt (current_chunk_size st + unit_size) chunk_size of
           Inl e \<Rightarrow> Inl e
         | Inr over \<Rightarrow>
             (let st' =
                (if over \<and> current_chunk st \<noteq> []
                 then st\<lparr>chunks := chunks st @
                              [(join joiner (current_chunk st), current_chunk_size st)],
                         current_chunk := [],
                         current_chunk_size := 0\<rparr>
                 else st)
              in Inr (st'\<lparr>current_chunk := current_chunk st' @ [unit],
                          current_chunk_size := current_chunk_size st' + unit_size\<rparr>)))"

text \<open>
  A \<^verbatim>\<open>for\<close> loop over a list runs its body on the element at the next index until the
  index reaches the length of the list or the body raises. \<open>for_loop\<close> iterates just
  that: it is \<open>None\<close> should the iteration never stop, \<open>Some (Inl e)\<close> when the body has
  raised \<open>e\<close>, and \<open>Some (Inr st)\<close> when the loop has run through and left the state \<open>st\<close>.
\<close>

definition for_loop :: "('a \<Rightarrow> 's \<Rightarrow> 'e + 's) \<Rightarrow> 'a list \<Rightarrow> 's \<Rightarrow> ('e + 's) option" where
  "for_loop body xs st =
     map_option snd
       (while_option (\<lambda>(i, r). i < length xs \<and> \<not> isl r)
          (\<lambda>(i, r). (Suc i, case r of Inl e \<Rightarrow> Inl e | Inr s \<Rightarrow> body (xs ! i) s))
          (0, Inr st))"

definition LineBasedChunking_call ::
    "py_object \<Rightarrow> py_object \<Rightarrow> (builtin_error + chunk list) option" where
  "LineBasedChunking_call text chunk_size =
     (case method_splitlines text of
        Inl e \<Rightarrow> Some (Inl e)
      | Inr lines \<Rightarrow>
          map_option (map_sum (\<lambda>e. e) (unit_finish [0x20]))
            (for_loop (unit_body [0x20] chunk_size) lines init_state))"

definition ParagraphBasedChunking_call ::
    "py_object \<Rightarrow> py_object \<Rightarrow> (builtin_error + chunk list) option" where
  "ParagraphBasedChunking_call text chunk_size =
     (case method_split_nn text of
        Inl e \<Rightarrow> Some (Inl e)
      | Inr paragraphs \<Rightarrow>
          map_option (map_sum (\<lambda>e. e) (unit_finish [0x0A, 0x0A]))
            (for_loop (unit_body [0x0A, 0x0A] chunk_size) paragraphs init_state))"

subsection \<open>Chunker and factory\<close>

datatype 'tok chunking_strategy =
    TokenBasedChunking "'tok encoding"
  | LineBasedChunking
  | ParagraphBasedChunking

fun chunk :: "'tok chunking_strategy \<Rightarrow> py_str \<Rightarrow> int \<Rightarrow> chunk list" where
  "chunk (TokenBasedChunking encoder) text chunk_size =
     TokenBasedChunking_chunk encoder text chunk_size"
| "chunk LineBasedChunking text chunk_size = LineBasedChunking_chunk text chunk_size"
| "chunk ParagraphBasedChunking text chunk_size = ParagraphBasedChunking_chunk text chunk_size"

datatype 'tok chunker = Chunker (strategy: "'tok chunking_strategy")

definition chunk_text :: "'tok chunker \<Rightarrow> py_str \<Rightarrow> int \<Rightarrow> chunk list" where
  "chunk_text self text chunk_size = chunk (strategy self) text chunk_size"

text \<open>The exceptions the factory raises, each with its message, and the name of an
  exception's class.\<close>

datatype error = ValueError py_str

fun class_name :: "error \<Rightarrow> py_str" where
  "class_name (ValueError msg) = str ''ValueError''"

definition get_chunking_strategy ::
    "py_str \<Rightarrow> 'tok encoding option \<Rightarrow> error + 'tok chunking_strategy" where
  "get_chunking_strategy strategy_name encoder =
     (if strategy_name = str ''token'' then
        (case encoder of
           None \<Rightarrow> Inl (ValueError (str ''Encoder is required for token-based chunking''))
         | Some e \<Rightarrow> Inr (TokenBasedChunking e))
      else if strategy_name = str ''line'' then Inr LineBasedChunking
      else if strategy_name = str ''paragraph'' then Inr ParagraphBasedChunking
      else Inl (ValueError (str ''Unknown chunking strategy: '' @ strategy_name)))"

section \<open>Facts about the string operations\<close>

text \<open>Whitespace in front of a string, and whitespace between two strings, only separates
  words: the words of the whole are the words of the parts.\<close>

lemma split_Nil: "split [] = []"
  by (simp add: split.simps)

lemma split_dropWhile: "split (dropWhile isspace s) = split s"
  by (subst (1 2) split.simps) simp

lemma split_space_Cons: "isspace c \<Longrightarrow> split (c # s) = split s"
  using split_dropWhile [of "c # s"] split_dropWhile [of s] by simp

lemma split_append_space:
  "isspace c \<Longrightarrow> split (a @ c # b) = split a @ split b"
proof (induction a rule: split.induct)
  case (1 s)
  show ?case
  proof (cases "dropWhile isspace s")
    case Nil
    then have all: "\<forall>x\<in>set s. isspace x"
      by simp
    then have "dropWhile isspace (s @ c # b) = dropWhile isspace (c # b)"
      by simp
    then have "split (s @ c # b) = split b"
      using split_dropWhile [of "s @ c # b"] split_dropWhile [of "c # b"]
        split_space_Cons [OF 1(2), of b] by simp
    moreover have "split s = []"
      by (subst split.simps) (simp add: Nil)
    ultimately show ?thesis by simp
  next
    case (Cons d ds)
    let ?r = "dropWhile (\<lambda>x. \<not> isspace x) ds"
    have nd: "\<not> isspace d"
      using Cons hd_dropWhile [of isspace s] by auto
    obtain x where x: "x \<in> set s" "\<not> isspace x"
      using Cons by (metis dropWhile_eq_Nil_conv list.distinct(1))
    have dw: "dropWhile isspace (s @ c # b) = d # (ds @ c # b)"
      using dropWhile_append1 [of x s isspace "c # b"] x Cons by simp
    have tw: "takeWhile (\<lambda>x. \<not> isspace x) (d # (ds @ c # b)) = takeWhile (\<lambda>x. \<not> isspace x) (d # ds)"
      using 1(2) nd by (simp add: takeWhile_tail)
    have dr: "dropWhile (\<lambda>x. \<not> isspace x) (ds @ c # b) = ?r @ c # b"
      using 1(2) by (simp add: dropWhile_append3)
    have IH: "split (?r @ c # b) = split ?r @ split b"
      using 1(1) [OF Cons 1(2)] .
    have "split (s @ c # b) = takeWhile (\<lambda>x. \<not> isspace x) (d # ds) # split (?r @ c # b)"
      by (subst split.simps) (simp only: dw list.case tw dr)
    moreover have "split s = takeWhile (\<lambda>x. \<not> isspace x) (d # ds) # split ?r"
      by (subst split.simps) (simp only: Cons list.case)
    ultimately show ?thesis using IH by simp
  qed
qed

lemma join_append:
  "xs \<noteq> [] \<Longrightarrow> ys \<noteq> [] \<Longrightarrow> join sep (xs @ ys) = join sep xs @ sep @ join sep ys"
proof (induction sep xs rule: join.induct)
  case (2 sep x)
  then show ?case by (cases ys) simp_all
qed simp_all

lemma join_snoc: "xs \<noteq> [] \<Longrightarrow> join sep (xs @ [x]) = join sep xs @ sep @ x"
  by (simp add: join_append)

lemma join_flatten:
  "g \<noteq> [] \<Longrightarrow> join sep (xs @ join sep g # ys) = join sep (xs @ g @ ys)"
proof -
  assume g: "g \<noteq> []"
  have mid: "join sep (join sep g # ys) = join sep (g @ ys)"
    using g by (cases ys) (simp_all add: join_append)
  show ?thesis
  proof (cases xs)
    case Nil
    then show ?thesis using mid by simp
  next
    case (Cons a as)
    then have "join sep (xs @ join sep g # ys) = join sep xs @ sep @ join sep (join sep g # ys)"
      using join_append [of xs "join sep g # ys" sep] by simp
    also have "\<dots> = join sep xs @ sep @ join sep (g @ ys)"
      using mid by simp
    also have "\<dots> = join sep (xs @ g @ ys)"
      using Cons g join_append [of xs "g @ ys" sep] by simp
    finally show ?thesis .
  qed
qed

lemma split_nn_not_Nil: "split_nn s \<noteq> []"
  by (induction s rule: split_nn.induct) (auto split: list.splits)

lemma join_split_nn: "join [0x0A, 0x0A] (split_nn s) = s"
proof (induction s rule: split_nn.induct)
  case (3 c d cs)
  show ?case
  proof (cases "c = 0x0A \<and> d = 0x0A")
    case True
    obtain p ps where "split_nn cs = p # ps"
      using split_nn_not_Nil [of cs] by (cases "split_nn cs") auto
    then show ?thesis using True 3(1) by simp
  next
    case False
    obtain p ps where P: "split_nn (d # cs) = p # ps"
      using split_nn_not_Nil [of "d # cs"] by (cases "split_nn (d # cs)") auto
    have J: "join [0x0A, 0x0A] ((c # p) # ps) = c # join [0x0A, 0x0A] (p # ps)"
      by (cases ps) simp_all
    have S: "split_nn (c # d # cs) = (c # p) # ps"
      using False P by auto
    have "join [0x0A, 0x0A] (p # ps) = d # cs"
      using 3(2) [OF False] P by simp
    then show ?thesis unfolding S J by simp
  qed
qed simp_all

lemma splitlines_Nil_iff: "splitlines s = [] \<longleftrightarrow> s = []"
  by (subst splitlines.simps) (simp split: list.splits)

lemma split_spaces_append: "\<forall>c\<in>set sep. isspace c \<Longrightarrow> split (sep @ s) = split s"
  by (induction sep) (simp_all add: split_space_Cons)

lemma split_append_sep:
  assumes "sep \<noteq> []" "\<forall>c\<in>set sep. isspace c"
  shows "split (a @ sep @ b) = split a @ split b"
proof -
  obtain c cs where sep: "sep = c # cs" using assms(1) by (cases sep) auto
  have "split (a @ c # (cs @ b)) = split a @ split (cs @ b)"
    using assms(2) sep by (intro split_append_space) simp
  then show ?thesis using split_spaces_append [of cs b] assms(2) sep by simp
qed

lemma word_count_join:
  "sep \<noteq> [] \<Longrightarrow> \<forall>c\<in>set sep. isspace c \<Longrightarrow>
   int (length (split (join sep xs))) = (\<Sum>x\<leftarrow>xs. int (length (split x)))"
proof (induction sep xs rule: join.induct)
  case (1 sep)
  show ?case by (simp add: split_Nil)
next
  case (2 sep x)
  show ?case by simp
next
  case (3 sep x y ys)
  have "split (x @ sep @ join sep (y # ys)) = split x @ split (join sep (y # ys))"
    using 3(2,3) by (rule split_append_sep)
  then show ?case using 3 by simp
qed

section \<open>Facts about the loops\<close>

lemmas chunk_eval =
  str_def splitlines.simps split.simps islinebreak_def isspace_def init_state_def Let_def
  LineBasedChunking_chunk_def ParagraphBasedChunking_chunk_def unit_step_def unit_finish_def
  TokenBasedChunking_chunk_def token_step_def token_finish_def

subsection \<open>The methods as the interpreter runs them\<close>

text \<open>A loop whose body never raises stops after one round per element, with the state
  that folding the body over the list gives.\<close>

lemma while_index_fold:
  assumes "\<And>x s. body x s = Inr (f x s)"
  shows "i \<le> length xs \<Longrightarrow>
   while_option (\<lambda>(i, r). i < length xs \<and> \<not> isl r)
     (\<lambda>(i, r). (Suc i, case r of Inl e \<Rightarrow> Inl e | Inr s \<Rightarrow> body (xs ! i) s)) (i, Inr st) =
     Some (length xs, Inr (fold f (drop i xs) st))"
proof (induction "length xs - i" arbitrary: i st)
  case 0
  then show ?case by (subst while_option_unfold) simp
next
  case (Suc k)
  then have lt: "i < length xs" by simp
  have "while_option (\<lambda>(i, r). i < length xs \<and> \<not> isl r)
     (\<lambda>(i, r). (Suc i, case r of Inl e \<Rightarrow> Inl e | Inr s \<Rightarrow> body (xs ! i) s))
     (Suc i, Inr (f (xs ! i) st)) =
     Some (length xs, Inr (fold f (drop (Suc i) xs) (f (xs ! i) st)))"
    using Suc(2) lt by (intro Suc(1)) simp_all
  moreover have "drop i xs = xs ! i # drop (Suc i) xs"
    using lt by (simp add: Cons_nth_drop_Suc)
  ultimately show ?case using lt assms by (subst while_option_unfold) simp
qed

lemma for_loop_fold:
  "(\<And>x s. body x s = Inr (f x s)) \<Longrightarrow> for_loop body xs st = Some (Inr (fold f xs st))"
  using while_index_fold [of body f 0 xs st] by (simp add: for_loop_def)

text \<open>With an integer for the chunk size the comparison does not raise, and the body does
  what the body of the typed loop does.\<close>

lemma unit_body_PyInt: "unit_body joiner (PyInt n) unit st = Inr (unit_step joiner n unit st)"
  by (simp add: unit_body_def unit_step_def int_gt_def Let_def)

text \<open>The methods do raise on other objects: on a chunk size that is no integer, once there
  is a unit to compare for, and on a text that is no string.\<close>

lemmas call_eval =
  LineBasedChunking_call_def ParagraphBasedChunking_call_def method_splitlines_def
  method_split_nn_def for_loop_def unit_body_def int_gt_def while_option_unfold

lemma line_call_None_size: "LineBasedChunking_call (PyStr (str ''a'')) PyNone = Some (Inl TypeError)"
  by (simp add: call_eval chunk_eval)

lemma line_call_None_size_no_line: "LineBasedChunking_call (PyStr []) PyNone = Some (Inr [])"
  by (simp add: call_eval chunk_eval)

lemma paragraph_call_None_size: "ParagraphBasedChunking_call (PyStr []) PyNone = Some (Inl TypeError)"
  by (simp add: call_eval chunk_eval)

lemma line_call_no_string: "LineBasedChunking_call (PyInt 7) (PyInt 3) = Some (Inl AttributeError)"
  by (simp add: call_eval)

lemma paragraph_call_no_string: "ParagraphBasedChunking_call PyNone (PyInt 3) = Some (Inl AttributeError)"
  by (simp add: call_eval)

subsection \<open>What the chunk texts are joined from\<close>

lemma unit_step_texts:
  "join sep (map fst (chunks (unit_step sep n u st)) @ current_chunk (unit_step sep n u st) @ us) =
   join sep (map fst (chunks st) @ current_chunk st @ u # us)"
proof (cases "current_chunk_size st + int (length (split u)) > n \<and> current_chunk st \<noteq> []")
  case True
  then show ?thesis
    using join_flatten [of "current_chunk st" sep "map fst (chunks st)" "u # us"]
    by (simp add: unit_step_def Let_def)
next
  case False
  then show ?thesis by (auto simp add: unit_step_def Let_def)
qed

lemma unit_finish_texts:
  "join sep (map fst (unit_finish sep st)) = join sep (map fst (chunks st) @ current_chunk st)"
  using join_flatten [of "current_chunk st" sep "map fst (chunks st)" "[]"]
  by (simp add: unit_finish_def)

lemma unit_loop_texts:
  "join sep (map fst (unit_finish sep (fold (unit_step sep n) us st))) =
   join sep (map fst (chunks st) @ current_chunk st @ us)"
proof (induction us arbitrary: st)
  case Nil
  show ?case by (simp add: unit_finish_texts)
next
  case (Cons u us)
  show ?case using Cons [of "unit_step sep n u st"] by (simp add: unit_step_texts)
qed

subsection \<open>The running size is the word count\<close>

lemma unit_loop_sizes:
  assumes "sep \<noteq> []" "\<forall>c\<in>set sep. isspace c"
  shows "\<forall>c\<in>set (chunks st). snd c = int (length (split (fst c))) \<Longrightarrow>
    current_chunk_size st = (\<Sum>x\<leftarrow>current_chunk st. int (length (split x))) \<Longrightarrow>
    \<forall>c\<in>set (unit_finish sep (fold (unit_step sep n) us st)). snd c = int (length (split (fst c)))"
proof (induction us arbitrary: st)
  case Nil
  then show ?case
    using word_count_join [OF assms, of "current_chunk st"] by (simp add: unit_finish_def)
next
  case (Cons u us)
  have "\<forall>c\<in>set (chunks (unit_step sep n u st)). snd c = int (length (split (fst c)))"
    using Cons.prems word_count_join [OF assms, of "current_chunk st"]
    by (simp add: unit_step_def Let_def)
  moreover have "current_chunk_size (unit_step sep n u st) =
      (\<Sum>x\<leftarrow>current_chunk (unit_step sep n u st). int (length (split x)))"
    using Cons.prems by (simp add: unit_step_def Let_def)
  ultimately show ?case using Cons.IH [of "unit_step sep n u st"] by simp
qed

subsection \<open>The tokens of the chunks\<close>

lemma token_loop_tokens:
  assumes "\<And>ts. encode enc (decode enc ts) = ts"
  shows "concat (map (\<lambda>c. encode enc (fst c)) (token_finish enc (fold (token_step enc n) ts st))) =
    concat (map (\<lambda>c. encode enc (fst c)) (chunks st)) @ current_chunk st @ ts"
proof (induction ts arbitrary: st)
  case Nil
  show ?case using assms by (simp add: token_finish_def)
next
  case (Cons t ts)
  show ?case using Cons [of "token_step enc n t st"] assms
    by (simp add: token_step_def Let_def)
qed

text \<open>With a chunk size of zero or less the test before each token succeeds every time, the
  first time on the still empty chunk.\<close>

lemma token_loop_nonpositive:
  "n \<le> 0 \<Longrightarrow> 0 \<le> current_chunk_size st \<Longrightarrow> ts \<noteq> [] \<Longrightarrow>
   token_finish enc (fold (token_step enc n) ts st) =
     chunks st @ (decode enc (current_chunk st), int (length (current_chunk st))) #
       map (\<lambda>t. (decode enc [t], 1)) ts"
proof (induction ts arbitrary: st)
  case Nil
  then show ?case by simp
next
  case (Cons t ts)
  let ?st = "token_step enc n t st"
  have st: "chunks ?st = chunks st @ [(decode enc (current_chunk st), int (length (current_chunk st)))]"
    "current_chunk ?st = [t]" "current_chunk_size ?st = 1"
    using Cons.prems(1,2) by (simp_all add: token_step_def Let_def)
  show ?case
  proof (cases ts)
    case Nil
    then show ?thesis using st by (simp add: token_finish_def)
  next
    case (Cons t' ts')
    then have "ts \<noteq> []" by simp
    then show ?thesis using Cons.IH [of ?st] Cons.prems(1) st by simp
  qed
qed

lemma token_chunks_nonpositive:
  "n \<le> 0 \<Longrightarrow> encode enc text \<noteq> [] \<Longrightarrow>
   TokenBasedChunking_chunk enc text n =
     (decode enc [], 0) # map (\<lambda>t. (decode enc [t], 1)) (encode enc text)"
  using token_loop_nonpositive [of n init_state "encode enc text" enc]
  by (simp add: TokenBasedChunking_chunk_def init_state_def)

subsection \<open>When the result is empty\<close>

lemma unit_step_current_chunk: "current_chunk (unit_step sep n u st) \<noteq> []"
  by (simp add: unit_step_def Let_def)

lemma unit_fold_current_chunk:
  "us \<noteq> [] \<or> current_chunk st \<noteq> [] \<Longrightarrow> current_chunk (fold (unit_step sep n) us st) \<noteq> []"
  by (induction us arbitrary: st) (simp_all add: unit_step_current_chunk)

lemma unit_finish_Nil_iff: "unit_finish sep st = [] \<longleftrightarrow> chunks st = [] \<and> current_chunk st = []"
  by (simp add: unit_finish_def)

lemma unit_loop_Nil_iff:
  "unit_finish sep (fold (unit_step sep n) us init_state) = [] \<longleftrightarrow> us = []"
proof (cases us)
  case Nil
  then show ?thesis by (simp add: unit_finish_def init_state_def)
next
  case (Cons u us')
  then show ?thesis
    using unit_fold_current_chunk [of us init_state sep n] by (simp add: unit_finish_Nil_iff)
qed

lemma line_chunks_Nil_iff: "LineBasedChunking_chunk text n = [] \<longleftrightarrow> text = []"
  by (simp add: LineBasedChunking_chunk_def unit_loop_Nil_iff splitlines_Nil_iff)

lemma paragraph_chunks_not_Nil: "ParagraphBasedChunking_chunk text n \<noteq> []"
  by (simp add: ParagraphBasedChunking_chunk_def unit_loop_Nil_iff split_nn_not_Nil)

lemma token_step_current_chunk: "current_chunk (token_step enc n t st) \<noteq> []"
  by (simp add: token_step_def Let_def)

lemma token_fold_current_chunk:
  "ts \<noteq> [] \<or> current_chunk st \<noteq> [] \<Longrightarrow> current_chunk (fold (token_step enc n) ts st) \<noteq> []"
  by (induction ts arbitrary: st) (simp_all add: token_step_current_chunk)

lemma token_chunks_Nil_iff: "TokenBasedChunking_chunk enc text n = [] \<longleftrightarrow> encode enc text = []"
proof (cases "encode enc text")
  case Nil
  then show ?thesis by (simp add: TokenBasedChunking_chunk_def token_finish_def init_state_def)
next
  case (Cons t ts)
  then show ?thesis
    using token_fold_current_chunk [of "encode enc text" init_state enc n]
    by (simp add: TokenBasedChunking_chunk_def token_finish_def)
qed

subsection \<open>The size bound\<close>

text \<open>A chunk is within the chunk size or is one unit on its own: in line and paragraph mode
  for every chunk size, in token mode for every chunk size that is not negative.\<close>

lemma unit_loop_bound:
  assumes "\<forall>c\<in>set (chunks st). snd c \<le> n \<or> (fst c \<in> U \<and> snd c = int (length (split (fst c))))"
    and "current_chunk_size st = (\<Sum>x\<leftarrow>current_chunk st. int (length (split x)))"
    and "current_chunk_size st \<le> n \<or> length (current_chunk st) \<le> 1"
    and "set (current_chunk st) \<subseteq> U" and "set us \<subseteq> U"
  shows "\<forall>c\<in>set (unit_finish sep (fold (unit_step sep n) us st)).
           snd c \<le> n \<or> (fst c \<in> U \<and> snd c = int (length (split (fst c))))"
  using assms
proof (induction us arbitrary: st)
  case Nil
  show ?case
  proof (cases "current_chunk st")
    case Nil
    then show ?thesis using Nil.prems(1) by (simp add: unit_finish_def)
  next
    case (Cons x xs)
    show ?thesis
    proof (cases xs)
      case Nil
      then show ?thesis using Cons Nil.prems by (auto simp add: unit_finish_def)
    next
      case (Cons y ys)
      then show ?thesis using \<open>current_chunk st = x # xs\<close> Nil.prems
        by (auto simp add: unit_finish_def)
    qed
  qed
next
  case (Cons u us)
  let ?st = "unit_step sep n u st"
  have flushed: "current_chunk st \<noteq> [] \<Longrightarrow>
      current_chunk_size st \<le> n \<or>
      (join sep (current_chunk st) \<in> U \<and>
       current_chunk_size st = int (length (split (join sep (current_chunk st)))))"
  proof -
    assume ne: "current_chunk st \<noteq> []"
    show ?thesis
    proof (cases "current_chunk_size st \<le> n")
      case True
      then show ?thesis by simp
    next
      case False
      then have "length (current_chunk st) \<le> 1" using Cons.prems(3) by simp
      then obtain x where "current_chunk st = [x]"
        using ne by (cases "current_chunk st") auto
      then show ?thesis using Cons.prems(2,4) by simp
    qed
  qed
  have 1: "\<forall>c\<in>set (chunks ?st). snd c \<le> n \<or> (fst c \<in> U \<and> snd c = int (length (split (fst c))))"
    using Cons.prems(1) flushed by (auto simp add: unit_step_def Let_def)
  have 2: "current_chunk_size ?st = (\<Sum>x\<leftarrow>current_chunk ?st. int (length (split x)))"
    using Cons.prems(2) by (simp add: unit_step_def Let_def)
  have 3: "current_chunk_size ?st \<le> n \<or> length (current_chunk ?st) \<le> 1"
    using Cons.prems(2) by (cases "current_chunk st") (auto simp add: unit_step_def Let_def)
  have 4: "set (current_chunk ?st) \<subseteq> U"
    using Cons.prems(4,5) by (simp add: unit_step_def Let_def)
  have 5: "set us \<subseteq> U" using Cons.prems(5) by simp
  show ?case using Cons.IH [OF 1 2 3 4 5] by simp
qed

lemma line_chunk_bound:
  "\<forall>c\<in>set (LineBasedChunking_chunk text n).
     snd c \<le> n \<or> (fst c \<in> set (splitlines text) \<and> snd c = int (length (split (fst c))))"
  unfolding LineBasedChunking_chunk_def
  by (rule unit_loop_bound) (simp_all add: init_state_def)

lemma paragraph_chunk_bound:
  "\<forall>c\<in>set (ParagraphBasedChunking_chunk text n).
     snd c \<le> n \<or> (fst c \<in> set (split_nn text) \<and> snd c = int (length (split (fst c))))"
  unfolding ParagraphBasedChunking_chunk_def
  by (rule unit_loop_bound) (simp_all add: init_state_def)

lemma token_loop_bound:
  assumes "\<forall>c\<in>set (chunks st). snd c \<le> n \<or> (\<exists>t\<in>T. fst c = decode enc [t] \<and> snd c = 1)"
    and "current_chunk_size st = int (length (current_chunk st))"
    and "current_chunk_size st \<le> n \<or> length (current_chunk st) = 1"
    and "set (current_chunk st) \<subseteq> T" and "set ts \<subseteq> T"
  shows "\<forall>c\<in>set (token_finish enc (fold (token_step enc n) ts st)).
           snd c \<le> n \<or> (\<exists>t\<in>T. fst c = decode enc [t] \<and> snd c = 1)"
  using assms
proof (induction ts arbitrary: st)
  case Nil
  have "current_chunk_size st \<le> n \<or> (\<exists>t\<in>T. current_chunk st = [t])"
    using Nil.prems(3,4) by (cases "current_chunk st") auto
  then show ?case using Nil.prems(1,2) by (auto simp add: token_finish_def)
next
  case (Cons t ts)
  let ?st = "token_step enc n t st"
  have single: "current_chunk_size st \<le> n \<or> (\<exists>t\<in>T. current_chunk st = [t])"
    using Cons.prems(3,4) by (cases "current_chunk st") auto
  have 1: "\<forall>c\<in>set (chunks ?st). snd c \<le> n \<or> (\<exists>t\<in>T. fst c = decode enc [t] \<and> snd c = 1)"
    using Cons.prems(1,2) single by (auto simp add: token_step_def Let_def)
  have 2: "current_chunk_size ?st = int (length (current_chunk ?st))"
    using Cons.prems(2) by (simp add: token_step_def Let_def)
  have 3: "current_chunk_size ?st \<le> n \<or> length (current_chunk ?st) = 1"
    using Cons.prems(2) by (auto simp add: token_step_def Let_def)
  have 4: "set (current_chunk ?st) \<subseteq> T"
    using Cons.prems(4,5) by (simp add: token_step_def Let_def)
  have 5: "set ts \<subseteq> T" using Cons.prems(5) by simp
  show ?case using Cons.IH [OF 1 2 3 4 5] by simp
qed

lemma token_chunk_bound:
  "0 \<le> n \<Longrightarrow>
   \<forall>c\<in>set (TokenBasedChunking_chunk enc text n).
     snd c \<le> n \<or> (\<exists>t\<in>set (encode enc text). fst c = decode enc [t] \<and> snd c = 1)"
  unfolding TokenBasedChunking_chunk_def
  by (rule token_loop_bound) (simp_all add: init_state_def)

section \<open>The claims\<close>

text \<open>
  C1. Every chunk's size is at most the chunk size, unless the chunk is a single unit that
  is larger than the chunk size on its own. Token mode breaks this for a negative chunk
  size: the test before the first token closes the still empty chunk, and that chunk, of no
  token and size 0, is larger than the chunk size. (\<open>line_chunk_bound\<close>,
  \<open>paragraph_chunk_bound\<close> and \<open>token_chunk_bound\<close> give the bound everywhere else.)
\<close>

theorem token_negative_size_empty_chunk:
  "TokenBasedChunking_chunk \<lparr>encode = (\<lambda>_. [a]), decode = dec\<rparr> text (- 1) =
     [(dec [], 0), (dec [a], 1)]"
  by (simp add: chunk_eval)

text \<open>
  C2 (as stated). Line mode on \<^verbatim>\<open>"a b c\nd\ne f g h"\<close> with chunk size 3 is said to return
  the two chunks \<^verbatim>\<open>[("a b c", 3), ("d e f g h", 5)]\<close>. It does not.
\<close>

theorem line_literal_not_two_chunks:
  "LineBasedChunking_chunk (str ''a b c\<newline>d\<newline>e f g h'') 3 \<noteq>
     [(str ''a b c'', 3), (str ''d e f g h'', 5)]"
  by (simp add: chunk_eval)

text \<open>
  C2 (amended). Line mode on \<^verbatim>\<open>"a b c\nd\ne f g h"\<close> with chunk size 3 returns exactly the
  three chunks \<^verbatim>\<open>[("a b c", 3), ("d", 1), ("e f g h", 4)]\<close>, in that order: the line
  \<^verbatim>\<open>"d"\<close> is closed alone before \<^verbatim>\<open>"e f g h"\<close>, since 1 + 4 exceeds 3.
\<close>

theorem line_literal_three_chunks:
  "LineBasedChunking_chunk (str ''a b c\<newline>d\<newline>e f g h'') 3 =
     [(str ''a b c'', 3), (str ''d'', 1), (str ''e f g h'', 4)]"
  by (simp add: chunk_eval)

text \<open>
  C3. Token mode with chunk size 0 on a text of five tokens is said to return five chunks
  of one token each and nothing else. It returns six: the five, and before them the chunk
  of no token and size 0 that the test before the first token closes.
\<close>

theorem token_zero_size_five_tokens:
  "TokenBasedChunking_chunk \<lparr>encode = (\<lambda>_. [a, b, c, d, e]), decode = dec\<rparr> text 0 =
     [(dec [], 0), (dec [a], 1), (dec [b], 1), (dec [c], 1), (dec [d], 1), (dec [e], 1)]"
  by (simp add: chunk_eval)

text \<open>
  C4. The list of chunks is said to be empty exactly for the empty text. Paragraph mode
  returns one chunk, of empty text and size 0, for the empty text, whatever the chunk size:
  splitting the empty string at blank lines gives one empty paragraph. (Line mode does
  return no chunk exactly for the empty text, \<open>line_chunks_Nil_iff\<close>, and token mode exactly
  for a text of no token, \<open>token_chunks_Nil_iff\<close>.)
\<close>

theorem paragraph_empty_text_one_chunk:
  "ParagraphBasedChunking_chunk [] n = [([], 0)]"
  by (simp add: chunk_eval)

text \<open>
  C5 (as stated). The factory is said to raise \<^verbatim>\<open>ConfigurationError\<close>. For the name
  \<^verbatim>\<open>"unknown"\<close> it raises an exception of another class.
\<close>

theorem factory_unknown_not_ConfigurationError:
  "get_chunking_strategy (str ''unknown'') (None :: nat encoding option) =
     Inl (ValueError (str ''Unknown chunking strategy: unknown'')) \<and>
   class_name (ValueError (str ''Unknown chunking strategy: unknown'')) \<noteq>
     str ''ConfigurationError''"
  by (simp add: get_chunking_strategy_def str_def)

text \<open>
  C5 (amended). The factory raises \<^verbatim>\<open>ValueError\<close> exactly when the name is none of
  \<^verbatim>\<open>"token"\<close>, \<^verbatim>\<open>"line"\<close>, \<^verbatim>\<open>"paragraph"\<close>, or is \<^verbatim>\<open>"token"\<close> with no encoder given; for
  \<^verbatim>\<open>"token"\<close> with an encoder, for \<^verbatim>\<open>"line"\<close> and for \<^verbatim>\<open>"paragraph"\<close> it returns the strategy
  of that name.
\<close>

theorem factory_raises_ValueError:
  "((\<exists>msg. get_chunking_strategy name enc = Inl (ValueError msg)) \<longleftrightarrow>
      name \<notin> {str ''token'', str ''line'', str ''paragraph''} \<or>
      (name = str ''token'' \<and> enc = None)) \<and>
   get_chunking_strategy (str ''token'') (Some e) = Inr (TokenBasedChunking e) \<and>
   get_chunking_strategy (str ''line'') enc = Inr LineBasedChunking \<and>
   get_chunking_strategy (str ''paragraph'') enc = Inr ParagraphBasedChunking"
  by (cases enc) (auto simp add: get_chunking_strategy_def str_def)

theorem factory_raises_ValueError_witness:
  "(\<exists>msg. get_chunking_strategy (str ''unknown'') (None :: nat encoding option) =
      Inl (ValueError msg)) \<and>
   str ''unknown'' \<notin> {str ''token'', str ''line'', str ''paragraph''}"
  using factory_raises_ValueError [where name = "str ''unknown''"
      and enc = "None :: nat encoding option", THEN conjunct1]
  by (simp add: str_def)

text \<open>
  C6. In token mode, with an encoder whose \<^verbatim>\<open>encode\<close> undoes its \<^verbatim>\<open>decode\<close>, the tokens of
  the chunks' texts, one chunk after the other, are the tokens of the text: none dropped,
  none twice, none out of order.
\<close>

theorem token_chunks_concat:
  assumes "\<And>ts. encode enc (decode enc ts) = ts"
  shows "concat (map (\<lambda>c. encode enc (fst c)) (TokenBasedChunking_chunk enc text n)) =
    encode enc text"
  using token_loop_tokens [OF assms, of n "encode enc text" init_state]
  by (simp add: TokenBasedChunking_chunk_def init_state_def)

theorem token_chunks_concat_witness:
  "(\<forall>ts :: nat list. encode \<lparr>encode = (\<lambda>s. s), decode = (\<lambda>ts. ts)\<rparr>
       (decode \<lparr>encode = (\<lambda>s. s), decode = (\<lambda>ts. ts)\<rparr> ts) = ts) \<and>
   concat (map (\<lambda>c. encode \<lparr>encode = (\<lambda>s. s), decode = (\<lambda>ts. ts)\<rparr> (fst c))
     (TokenBasedChunking_chunk \<lparr>encode = (\<lambda>s. s), decode = (\<lambda>ts. ts)\<rparr> (str ''hello'') 2)) =
   encode \<lparr>encode = (\<lambda>s. s), decode = (\<lambda>ts. ts)\<rparr> (str ''hello'')"
proof -
  have inv: "\<And>ts :: nat list. encode \<lparr>encode = (\<lambda>s. s), decode = (\<lambda>ts. ts)\<rparr>
      (decode \<lparr>encode = (\<lambda>s. s), decode = (\<lambda>ts. ts)\<rparr> ts) = ts"
    by simp
  show ?thesis
    using token_chunks_concat [of "\<lparr>encode = (\<lambda>s. s), decode = (\<lambda>ts. ts)\<rparr>" "str ''hello''" 2, OF inv]
      inv by blast
qed

text \<open>
  C7. Paragraph mode on \<^verbatim>\<open>"alpha beta\n\ngamma\n\ndelta epsilon zeta"\<close> with chunk size 2
  returns exactly \<^verbatim>\<open>[("alpha beta", 2), ("gamma", 1), ("delta epsilon zeta", 3)]\<close>, in
  that order.
\<close>

theorem paragraph_literal_three_chunks:
  "ParagraphBasedChunking_chunk
     (str ''alpha beta\<newline>\<newline>gamma\<newline>\<newline>delta epsilon zeta'') 2 =
     [(str ''alpha beta'', 2), (str ''gamma'', 1), (str ''delta epsilon zeta'', 3)]"
  by (simp add: chunk_eval)

text \<open>
  C8. In paragraph mode the chunk texts joined by two line feeds are the text itself; in
  line mode the chunk texts joined by a space are the lines of the text joined by a space.
\<close>

theorem chunk_texts_joined:
  "join [0x0A, 0x0A] (map fst (ParagraphBasedChunking_chunk text n)) = text \<and>
   join [0x20] (map fst (LineBasedChunking_chunk text n)) = join [0x20] (splitlines text)"
  by (simp add: ParagraphBasedChunking_chunk_def LineBasedChunking_chunk_def unit_loop_texts
      init_state_def join_split_nn)

text \<open>
  C9. In line mode and in paragraph mode the size reported with a chunk is the number of
  whitespace-separated words of the chunk's text.
\<close>

theorem chunk_size_is_word_count:
  "(\<forall>c\<in>set (LineBasedChunking_chunk text n). snd c = int (length (split (fst c)))) \<and>
   (\<forall>c\<in>set (ParagraphBasedChunking_chunk text n). snd c = int (length (split (fst c))))"
proof
  show "\<forall>c\<in>set (LineBasedChunking_chunk text n). snd c = int (length (split (fst c)))"
    unfolding LineBasedChunking_chunk_def
    by (rule unit_loop_sizes) (simp_all add: isspace_def init_state_def)
  show "\<forall>c\<in>set (ParagraphBasedChunking_chunk text n). snd c = int (length (split (fst c)))"
    unfolding ParagraphBasedChunking_chunk_def
    by (rule unit_loop_sizes) (simp_all add: isspace_def init_state_def)
qed

theorem chunk_size_is_word_count_witness:
  "(str ''a b'', 2) \<in> set (LineBasedChunking_chunk (str ''a b\<newline>c d e'') 3) \<and>
   (2 :: int) = int (length (split (str ''a b''))) \<and>
   (str ''a b'', 2) \<in> set (ParagraphBasedChunking_chunk (str ''a b\<newline>\<newline>c d e'') 3)"
proof -
  have l: "(str ''a b'', 2) \<in> set (LineBasedChunking_chunk (str ''a b\<newline>c d e'') 3)"
    by (simp add: chunk_eval)
  have p: "(str ''a b'', 2) \<in> set (ParagraphBasedChunking_chunk (str ''a b\<newline>\<newline>c d e'') 3)"
    by (simp add: chunk_eval)
  have "snd (str ''a b'', 2 :: int) = int (length (split (fst (str ''a b'', 2 :: int))))"
    using chunk_size_is_word_count [of "str ''a b\<newline>c d e''" 3] l by blast
  then show ?thesis using l p by simp
qed

text \<open>
  C10. Line mode and paragraph mode, called with any string and any integer for the chunk
  size, zero and negative ones too, stop and return their list of chunks: no operation
  raises, and the loop runs through.
\<close>

theorem line_and_paragraph_return:
  "LineBasedChunking_call (PyStr text) (PyInt n) = Some (Inr (LineBasedChunking_chunk text n)) \<and>
   ParagraphBasedChunking_call (PyStr text) (PyInt n) =
     Some (Inr (ParagraphBasedChunking_chunk text n))"
  by (simp add: LineBasedChunking_call_def ParagraphBasedChunking_call_def
      method_splitlines_def method_split_nn_def for_loop_fold [OF unit_body_PyInt]
      LineBasedChunking_chunk_def ParagraphBasedChunking_chunk_def)

end
